theory Spec2Isabelle
  imports
    Complex_Main
    "HOL-Library.AList"
    "HOL-Library.Char_ord"
    "HOL-Library.List_Lexorder"
    "HOL-Library.Product_Lexorder"
    "HOL-Library.Multiset"
begin

section \<open>Data model of \<open>bin/addPanelRG.py\<close>\<close>

text \<open>
  An area of the panel is the dictionary
  \<^verbatim>\<open>{"region": .., "start": .., "end": .., "id": .., "strand": ..}\<close> built by
  \<^verbatim>\<open>getSelectedAreas\<close>. The keys are prefixed with \<open>area_\<close> because \<open>end\<close> and \<open>id\<close> are
  taken in Isabelle. Coordinates are Python integers, hence \<^typ>\<open>int\<close>.
\<close>

record area =
  area_region :: string
  area_start :: int
  area_end :: int
  area_id :: string
  area_strand :: string

text \<open>
  The attributes of a \<^verbatim>\<open>pysam.AlignedSegment\<close> that the functions read. The main program
  calls the functions on mapped reads only, where \<^verbatim>\<open>reference_start\<close> (0-based) and
  \<^verbatim>\<open>reference_end\<close> are integers.
\<close>

record read =
  reference_start :: int
  reference_end :: int
  is_reverse :: bool
  is_read1 :: bool

section \<open>\<^verbatim>\<open>getSourceRegion\<close>\<close>

text \<open>
  The loop of the reverse branch (lines 88 to 94). \<^verbatim>\<open>overlapped_region\<close> is \<open>None\<close> when the
  loop is entered; a \<^verbatim>\<open>break\<close> ends the recursion with the current value of it.
\<close>

fun reverse_loop :: "int \<Rightarrow> int \<Rightarrow> area list \<Rightarrow> area option" where
  "reverse_loop ref_end anchor_offset [] = None"
| "reverse_loop ref_end anchor_offset (curr_region # regions) =
     (if ref_end < area_start curr_region then None
      else if ref_end \<le> area_end curr_region then
        (if ref_end \<ge> area_end curr_region - anchor_offset then Some curr_region
         else reverse_loop ref_end anchor_offset regions)
      else reverse_loop ref_end anchor_offset regions)"

text \<open>The loop of the forward branch (lines 96 to 102).\<close>

fun forward_loop :: "int \<Rightarrow> int \<Rightarrow> area list \<Rightarrow> area option" where
  "forward_loop ref_start anchor_offset [] = None"
| "forward_loop ref_start anchor_offset (curr_region # regions) =
     (if ref_start < area_start curr_region then None
      else if ref_start \<ge> area_start curr_region then
        (if ref_start \<le> area_start curr_region + anchor_offset then Some curr_region
         else forward_loop ref_start anchor_offset regions)
      else forward_loop ref_start anchor_offset regions)"

definition getSourceRegion :: "read \<Rightarrow> area list \<Rightarrow> int \<Rightarrow> area option" where
  "getSourceRegion rd regions anchor_offset =
     (let ref_start = reference_start rd + 1;
          ref_end = reference_end rd
      in if is_reverse rd then reverse_loop ref_end anchor_offset regions
         else forward_loop ref_start anchor_offset regions)"

section \<open>\<^verbatim>\<open>hasValidStrand\<close>\<close>

definition hasValidStrand :: "read \<Rightarrow> area \<Rightarrow> bool" where
  "hasValidStrand rd ampl_region =
     (if is_read1 rd then
        (if is_reverse rd then
           (if area_strand ampl_region = ''-'' then True else False)
         else
           (if area_strand ampl_region = ''+'' then True else False))
      else
        (if is_reverse rd then
           (if area_strand ampl_region = ''+'' then True else False)
         else
           (if area_strand ampl_region = ''-'' then True else False)))"

section \<open>Python values and errors\<close>

text \<open>
  The exceptions the modelled code can raise. \<open>ValueError\<close> carries the text that
  \<^verbatim>\<open>int()\<close> refused (or a note on a failed unpacking), \<open>KeyError\<close> the missing key,
  \<open>NameError\<close> the name that is not bound and \<open>Exception\<close> the message given to
  \<^verbatim>\<open>raise Exception(..)\<close>.
\<close>

datatype error =
    IndexError
  | ValueError string
  | KeyError string
  | TypeError
  | NameError string
  | ZeroDivisionError
  | OverflowError
  | Exception string

text \<open>
  Text is a list of characters, each a code point below 256. \<open>is_space\<close> lists the
  code points below 256 that \<^verbatim>\<open>str.strip()\<close> and \<^verbatim>\<open>int()\<close> take for white space:
  the ASCII ones, U+0085 and U+00A0.
\<close>

definition tab :: char where
  "tab = CHR 0x09"

definition newline :: char where
  "newline = CHR 0x0A"

definition is_space :: "char \<Rightarrow> bool" where
  "is_space c = (c \<in> set [CHR 0x09, CHR 0x0A, CHR 0x0B, CHR 0x0C, CHR 0x0D,
                           CHR 0x1C, CHR 0x1D, CHR 0x1E, CHR 0x1F, CHR 0x20,
                           CHR 0x85, CHR 0xA0])"

definition strip :: "string \<Rightarrow> string" where
  "strip s = rev (dropWhile is_space (rev (dropWhile is_space s)))"

definition startswith :: "string \<Rightarrow> string \<Rightarrow> bool" where
  "startswith s pre = (take (length pre) s = pre)"

text \<open>\<^verbatim>\<open>s.split(sep)\<close> for a separator of one character: never the empty list.\<close>

fun split :: "char \<Rightarrow> string \<Rightarrow> string list" where
  "split sep [] = [[]]"
| "split sep (c # cs) =
     (if c = sep then [] # split sep cs
      else (case split sep cs of
              [] \<Rightarrow> [[c]]
            | f # fs \<Rightarrow> (c # f) # fs))"

text \<open>\<^verbatim>\<open>xs[i]\<close> for an index that is not negative.\<close>

definition item :: "'a list \<Rightarrow> nat \<Rightarrow> error + 'a" where
  "item xs i = (if i < length xs then Inr (xs ! i) else Inl IndexError)"

text \<open>
  \<^verbatim>\<open>int(s)\<close> in base 10: white space around the text is dropped, then an optional sign,
  then decimal digits, where one underscore may stand between two digits. Below 256 the
  decimal digits are the ASCII ones.
\<close>

definition is_digit :: "char \<Rightarrow> bool" where
  "is_digit c = (c \<in> set ''0123456789'')"

definition digit_val :: "char \<Rightarrow> nat" where
  "digit_val c = of_char c - 48"

fun digits :: "nat \<Rightarrow> string \<Rightarrow> nat option" where
  "digits acc [] = None"
| "digits acc (c # cs) =
     (if is_digit c then
        (case cs of
           [] \<Rightarrow> Some (10 * acc + digit_val c)
         | d # ds \<Rightarrow>
             if d = CHR ''_'' then digits (10 * acc + digit_val c) ds
             else digits (10 * acc + digit_val c) cs)
      else None)"

definition py_int :: "string \<Rightarrow> error + int" where
  "py_int s =
     (let t = strip s;
          v = (case t of
                 [] \<Rightarrow> None
               | c # cs \<Rightarrow>
                   if c = CHR ''-'' then map_option (\<lambda>n. - int n) (digits 0 cs)
                   else if c = CHR ''+'' then map_option int (digits 0 cs)
                   else map_option int (digits 0 t))
      in case v of None \<Rightarrow> Inl (ValueError s) | Some n \<Rightarrow> Inr n)"

section \<open>\<^verbatim>\<open>getSelectedAreas\<close>\<close>

text \<open>
  The panel file is the list of its lines, as the iteration over the open file yields
  them. A line is read when it starts with none of \<open>browser \<close>, \<open>track \<close> and \<open>#\<close>.
\<close>

definition is_data_line :: "string \<Rightarrow> bool" where
  "is_data_line line =
     (\<not> startswith line ''browser '' \<and> \<not> startswith line ''track ''
      \<and> \<not> startswith line ''#'')"

definition fields_of :: "string \<Rightarrow> string list" where
  "fields_of line = map strip (split tab line)"

text \<open>
  The dictionary appended for one line (lines 48 to 55): its entries are evaluated in the
  order of the source, so the first failing one gives the exception.
\<close>

definition area_of_line :: "string \<Rightarrow> error + area" where
  "area_of_line line =
     (let line_fields = fields_of line in
      case item line_fields 0 of Inl e \<Rightarrow> Inl e | Inr f0 \<Rightarrow>
     (case item line_fields 1 of Inl e \<Rightarrow> Inl e | Inr f1 \<Rightarrow>
     (case py_int f1 of Inl e \<Rightarrow> Inl e | Inr n1 \<Rightarrow>
     (case item line_fields 2 of Inl e \<Rightarrow> Inl e | Inr f2 \<Rightarrow>
     (case py_int f2 of Inl e \<Rightarrow> Inl e | Inr n2 \<Rightarrow>
     (case item line_fields 3 of Inl e \<Rightarrow> Inl e | Inr f3 \<Rightarrow>
     (case item line_fields 5 of Inl e \<Rightarrow> Inl e | Inr f5 \<Rightarrow>
        Inr \<lparr>area_region = f0, area_start = n1 + 1, area_end = n2, area_id = f3,
             area_strand = f5\<rparr>)))))))"

fun getSelectedAreas_loop :: "area list \<Rightarrow> string list \<Rightarrow> error + area list" where
  "getSelectedAreas_loop selected_areas [] = Inr selected_areas"
| "getSelectedAreas_loop selected_areas (line # lines) =
     (if is_data_line line then
        (case area_of_line line of
           Inl e \<Rightarrow> Inl e
         | Inr a \<Rightarrow> getSelectedAreas_loop (selected_areas @ [a]) lines)
      else getSelectedAreas_loop selected_areas lines)"

definition getSelectedAreas :: "string list \<Rightarrow> error + area list" where
  "getSelectedAreas input_panel = getSelectedAreas_loop [] input_panel"

section \<open>\<^verbatim>\<open>getSelectedAreasByChr\<close>\<close>

text \<open>The key of the sort (line 65); tuples and texts are compared lexicographically.\<close>

definition sort_key_of :: "area \<Rightarrow> string \<times> int \<times> int" where
  "sort_key_of x = (area_region x, area_start x, area_end x)"

text \<open>
  The dictionary \<^verbatim>\<open>area_by_chr\<close> is an association list in the order of insertion:
  \<^const>\<open>AList.update\<close> replaces the value of a key in place and puts a new key last.
  One turn of the loop of lines 68 to 72; the key read on line 72 is present there.
\<close>

definition group_step :: "(string \<times> area list) list \<Rightarrow> area \<Rightarrow> (string \<times> area list) list" where
  "group_step area_by_chr curr_area =
     (let chrom = area_region curr_area;
          d = (if map_of area_by_chr chrom = None then AList.update chrom [] area_by_chr
               else area_by_chr)
      in case map_of d chrom of
           None \<Rightarrow> d
         | Some l \<Rightarrow> AList.update chrom (l @ [curr_area]) d)"

definition getSelectedAreasByChr :: "string list \<Rightarrow> error + (string \<times> area list) list" where
  "getSelectedAreasByChr input_panel =
     (case getSelectedAreas input_panel of
        Inl e \<Rightarrow> Inl e
      | Inr selected_areas \<Rightarrow>
          Inr (foldl group_step [] (sort_key sort_key_of selected_areas)))"

section \<open>\<open>bin/Acinome/variantsToFreq.py\<close>\<close>

text \<open>
  The records come from a VCF reader that is not part of the modelled files: a file is
  taken as the sample names and the records the reader gives for it. A value of a record
  is a number or a list of numbers; a number that a record holds is a rational, as every
  finite Python integer or float is.
\<close>

datatype vcf_value = Number rat | Numbers "rat list"

text \<open>
  \<^verbatim>\<open>record.samples\<close> is an association list from sample names (distinct) to the
  dictionaries of the samples, \<^verbatim>\<open>record.info\<close> a dictionary.
\<close>

record vcf_record =
  record_chrom :: string
  record_pos :: int
  record_alt :: "string list"
  record_samples :: "(string \<times> (string \<rightharpoonup> vcf_value)) list"
  record_info :: "string \<rightharpoonup> vcf_value"

record vcf_file =
  file_samples :: "string list"
  file_records :: "vcf_record list"

text \<open>\<^verbatim>\<open>k in d\<close> and \<^verbatim>\<open>d[k]\<close> for a dictionary.\<close>

definition has_key :: "(string \<rightharpoonup> 'v) \<Rightarrow> string \<Rightarrow> bool" where
  "has_key d k = (d k \<noteq> None)"

definition get_item :: "(string \<rightharpoonup> 'v) \<Rightarrow> string \<Rightarrow> error + 'v" where
  "get_item d k = (case d k of None \<Rightarrow> Inl (KeyError k) | Some v \<Rightarrow> Inr v)"

text \<open>\<^verbatim>\<open>str(i)\<close> for an integer: its decimal digits, after a minus sign when negative.\<close>

fun str_nat :: "nat \<Rightarrow> string" where
  "str_nat n =
     (if n < 10 then [char_of (48 + n)]
      else str_nat (n div 10) @ [char_of (48 + n mod 10)])"

definition str_int :: "int \<Rightarrow> string" where
  "str_int i = (if i < 0 then CHR ''-'' # str_nat (nat (- i)) else str_nat (nat i))"

text \<open>The message of the exception of line 53.\<close>

definition no_frequency_message :: "vcf_record \<Rightarrow> string" where
  "no_frequency_message record =
     ''The allele frequency cannot be retrieved in variant '' @ [CHR 0x22]
       @ record_chrom record @ '':'' @ str_int (record_pos record) @ [CHR 0x22] @ ''.''"

text \<open>
  The loop of lines 48 and 49 over \<^verbatim>\<open>AD[1:]\<close>: each turn looks \<open>DP\<close> up in the info of
  the record, converts it and divides. The conversion and the division are floating-point
  operations and are not evaluated here: \<open>true_div\<close> stands for
  \<^verbatim>\<open>allele_depth/float(dp)\<close> on two numbers and gives the quotient that Python computes,
  or the exception of the conversion or of the division (\<open>OverflowError\<close>,
  \<open>ZeroDivisionError\<close>). Every property below holds for every such function.
\<close>

fun depth_loop ::
  "(rat \<Rightarrow> rat \<Rightarrow> error + rat) \<Rightarrow> vcf_record \<Rightarrow> rat list \<Rightarrow> rat list \<Rightarrow> error + vcf_value"
where
  "depth_loop true_div record allele_freq [] = Inr (Numbers allele_freq)"
| "depth_loop true_div record allele_freq (allele_depth # depths) =
     (case get_item (record_info record) ''DP'' of
        Inl e \<Rightarrow> Inl e
      | Inr (Numbers dps) \<Rightarrow> Inl TypeError
      | Inr (Number dp) \<Rightarrow>
         (case true_div allele_depth dp of
            Inl e \<Rightarrow> Inl e
          | Inr f \<Rightarrow> depth_loop true_div record (allele_freq @ [f]) depths))"

text \<open>
  Lines 43 to 53 for one record and one sample name: the value of \<^verbatim>\<open>allele_freq\<close> when
  line 55 is reached, or the exception raised before.
\<close>

definition get_allele_freq ::
  "(rat \<Rightarrow> rat \<Rightarrow> error + rat) \<Rightarrow> vcf_record \<Rightarrow> string \<Rightarrow> error + vcf_value"
where
  "get_allele_freq true_div record spl_name =
     (case get_item (map_of (record_samples record)) spl_name of
        Inl e \<Rightarrow> Inl e
      | Inr sample \<Rightarrow>
          if has_key sample ''AF'' then get_item sample ''AF''
          else if has_key sample ''AD'' then
            (case get_item sample ''AD'' of
               Inl e \<Rightarrow> Inl e
             | Inr (Number x) \<Rightarrow> Inl TypeError
             | Inr (Numbers ad) \<Rightarrow> depth_loop true_div record [] (tl ad))
          else if length (record_samples record) \<le> 1 \<and> has_key (record_info record) ''AF''
            then get_item (record_info record) ''AF''
          else Inl (Exception (no_frequency_message record)))"

text \<open>
  One entry of \<^verbatim>\<open>variants\<close> (lines 34 to 39). The coverage maps a sample name to the depth
  read from the file, kept as text.
\<close>

record variant =
  variant_chrom :: string
  variant_pos :: int
  variant_alleles :: "string \<rightharpoonup> (string \<rightharpoonup> rat)"
  variant_coverage :: "string \<rightharpoonup> string"

text \<open>\<^verbatim>\<open>allele_freq[idx]\<close>, and the loop of lines 55 to 58 over \<^verbatim>\<open>enumerate(record.alt)\<close>.\<close>

definition index_value :: "vcf_value \<Rightarrow> nat \<Rightarrow> error + rat" where
  "index_value v idx = (case v of Number x \<Rightarrow> Inl TypeError | Numbers xs \<Rightarrow> item xs idx)"

fun store_alleles ::
  "string \<Rightarrow> vcf_value \<Rightarrow> (string \<rightharpoonup> (string \<rightharpoonup> rat)) \<Rightarrow> nat \<Rightarrow> string list
   \<Rightarrow> error + (string \<rightharpoonup> (string \<rightharpoonup> rat))"
where
  "store_alleles spl_name allele_freq alleles idx [] = Inr alleles"
| "store_alleles spl_name allele_freq alleles idx (alt # alts) =
     (let alleles1 = (if \<not> has_key alleles alt then alleles(alt \<mapsto> Map.empty) else alleles) in
      case index_value allele_freq idx of
        Inl e \<Rightarrow> Inl e
      | Inr f \<Rightarrow>
         (case get_item alleles1 alt of
            Inl e \<Rightarrow> Inl e
          | Inr by_sample \<Rightarrow>
              store_alleles spl_name allele_freq
                (alleles1(alt \<mapsto> by_sample(spl_name \<mapsto> f))) (Suc idx) alts))"

text \<open>The loop of line 42 over the sample names of the file.\<close>

fun samples_loop ::
  "(rat \<Rightarrow> rat \<Rightarrow> error + rat) \<Rightarrow> vcf_record \<Rightarrow> (string \<rightharpoonup> (string \<rightharpoonup> rat)) \<Rightarrow> string list
   \<Rightarrow> error + (string \<rightharpoonup> (string \<rightharpoonup> rat))"
where
  "samples_loop true_div record alleles [] = Inr alleles"
| "samples_loop true_div record alleles (spl_name # spl_names) =
     (case get_allele_freq true_div record spl_name of
        Inl e \<Rightarrow> Inl e
      | Inr allele_freq \<Rightarrow>
         (case store_alleles spl_name allele_freq alleles 0 (record_alt record) of
            Inl e \<Rightarrow> Inl e
          | Inr alleles' \<Rightarrow> samples_loop true_div record alleles' spl_names))"

text \<open>The loop of line 30 over the records of one file.\<close>

fun records_loop ::
  "(rat \<Rightarrow> rat \<Rightarrow> error + rat) \<Rightarrow> string list \<Rightarrow> (string \<rightharpoonup> variant) \<Rightarrow> vcf_record list
   \<Rightarrow> error + (string \<rightharpoonup> variant)"
where
  "records_loop true_div spl_names variants [] = Inr variants"
| "records_loop true_div spl_names variants (record # records) =
     (let pos_id = record_chrom record @ '':'' @ str_int (record_pos record);
          variants1 =
            (if \<not> has_key variants pos_id
             then variants(pos_id \<mapsto>
                    \<lparr>variant_chrom = record_chrom record, variant_pos = record_pos record,
                     variant_alleles = Map.empty, variant_coverage = Map.empty\<rparr>)
             else variants)
      in case get_item variants1 pos_id of
           Inl e \<Rightarrow> Inl e
         | Inr var \<Rightarrow>
            (case samples_loop true_div record (variant_alleles var) spl_names of
               Inl e \<Rightarrow> Inl e
             | Inr alleles' \<Rightarrow>
                 records_loop true_div spl_names
                   (variants1(pos_id \<mapsto> var\<lparr>variant_alleles := alleles'\<rparr>)) records))"

text \<open>
  The names that the module has bound when line 29 runs: those of the imports of lines 1
  to 13 and of the assignments before the loop. No built-in name is \<open>VEPvcf\<close>.
\<close>

definition module_names :: "string list" where
  "module_names =
     [''os'', ''sys'', ''uuid'', ''argparse'', ''subprocess'', ''CURRENT_DIR'', ''LIB_DIR'',
      ''VEPVCFIO'', ''getAlleleRecord'', ''parser'', ''group_input'', ''group_output'',
      ''args'', ''variants'', ''current_vcf'']"

definition load_name :: "string list \<Rightarrow> string \<Rightarrow> error + unit" where
  "load_name names name = (if name \<in> set names then Inr () else Inl (NameError name))"

text \<open>
  The loop of line 28 over the files, for a given list of bound names: line 29 calls the
  name \<open>VEPvcf\<close>. \<open>open_vcf\<close> is what the reader gives for a path.
\<close>

fun get_variants_loop ::
  "string list \<Rightarrow> (rat \<Rightarrow> rat \<Rightarrow> error + rat) \<Rightarrow> (string \<Rightarrow> vcf_file) \<Rightarrow> (string \<rightharpoonup> variant)
   \<Rightarrow> string list \<Rightarrow> error + (string \<rightharpoonup> variant)"
where
  "get_variants_loop names true_div open_vcf variants [] = Inr variants"
| "get_variants_loop names true_div open_vcf variants (current_vcf # var_files) =
     (case load_name names ''VEPvcf'' of
        Inl e \<Rightarrow> Inl e
      | Inr u \<Rightarrow>
         (case records_loop true_div (file_samples (open_vcf current_vcf)) variants
                 (file_records (open_vcf current_vcf)) of
            Inl e \<Rightarrow> Inl e
          | Inr variants' \<Rightarrow> get_variants_loop names true_div open_vcf variants' var_files))"

text \<open>Lines 27 to 58 of the script.\<close>

definition get_variants ::
  "(rat \<Rightarrow> rat \<Rightarrow> error + rat) \<Rightarrow> (string \<Rightarrow> vcf_file) \<Rightarrow> string list
   \<Rightarrow> error + (string \<rightharpoonup> variant)"
where
  "get_variants true_div open_vcf var_files =
     get_variants_loop module_names true_div open_vcf Map.empty var_files"

text \<open>The message of the exception of line 88.\<close>

definition duplicate_depth_message :: "string \<Rightarrow> string" where
  "duplicate_depth_message pos_id =
     ''The depth for variant '' @ [CHR 0x27] @ pos_id @ [CHR 0x27] @ '' already exists.''"

text \<open>
  Lines 85 to 89 for one line of the depth file of the sample \<^verbatim>\<open>spl\<close>, and the loop of
  line 84 over the lines of the file, from the value that \<^verbatim>\<open>variants\<close> has there. A line
  that does not split into three fields fails in the unpacking of line 85.
\<close>

definition store_depth :: "string \<Rightarrow> (string \<rightharpoonup> variant) \<Rightarrow> string \<Rightarrow> error + (string \<rightharpoonup> variant)" where
  "store_depth spl variants line =
     (case split tab (strip line) of
        [chrom, pos, depth] \<Rightarrow>
          (let pos_id = chrom @ '':'' @ pos in
           case get_item variants pos_id of
             Inl e \<Rightarrow> Inl e
           | Inr v \<Rightarrow>
               if has_key (variant_coverage v) spl
               then Inl (Exception (duplicate_depth_message pos_id))
               else Inr (variants(pos_id \<mapsto>
                      v\<lparr>variant_coverage := (variant_coverage v)(spl \<mapsto> depth)\<rparr>)))
      | _ \<Rightarrow> Inl (ValueError ''unpack''))"

fun store_depths :: "string \<Rightarrow> (string \<rightharpoonup> variant) \<Rightarrow> string list \<Rightarrow> error + (string \<rightharpoonup> variant)" where
  "store_depths spl variants [] = Inr variants"
| "store_depths spl variants (line # lines) =
     (case store_depth spl variants line of
        Inl e \<Rightarrow> Inl e
      | Inr variants' \<Rightarrow> store_depths spl variants' lines)"

section \<open>Well-formed panels\<close>

text \<open>The order of one chromosome's list: ascending by the pair (start, end).\<close>

definition start_end :: "area \<Rightarrow> int \<times> int" where
  "start_end a = (area_start a, area_end a)"

text \<open>
  The words used to state the properties of the panel reader. A text is an integer when
  \<^verbatim>\<open>int()\<close> accepts it. A read line is well formed when it has at least six fields
  of which the second and the third are integers, and a panel is well formed when each of
  its read lines is.
\<close>

definition int_text :: "string \<Rightarrow> bool" where
  "int_text s = (\<not> isl (py_int s))"

definition well_formed_line :: "string \<Rightarrow> bool" where
  "well_formed_line line =
     (6 \<le> length (fields_of line) \<and> int_text (fields_of line ! 1)
      \<and> int_text (fields_of line ! 2))"

definition well_formed_panel :: "string list \<Rightarrow> bool" where
  "well_formed_panel input_panel =
     list_all (\<lambda>line. is_data_line line \<longrightarrow> well_formed_line line) input_panel"

text \<open>
  What a line yields: the area with the first field as region, the second field plus one as
  start, the third field as end, the fourth as id and the sixth as strand.
\<close>

definition line_yields :: "string \<Rightarrow> area \<Rightarrow> bool" where
  "line_yields line a =
     (6 \<le> length (fields_of line)
      \<and> area_region a = fields_of line ! 0
      \<and> py_int (fields_of line ! 1) = Inr (area_start a - 1)
      \<and> py_int (fields_of line ! 2) = Inr (area_end a)
      \<and> area_id a = fields_of line ! 3
      \<and> area_strand a = fields_of line ! 5)"

text \<open>
  The dictionary groups a list of areas: its keys are distinct and each region that occurs
  in the list is mapped to the areas of that region, in the order of the list.
\<close>

definition grouped :: "(string \<times> area list) list \<Rightarrow> area list \<Rightarrow> bool" where
  "grouped d xs \<longleftrightarrow>
     distinct (map fst d)
     \<and> (\<forall>c. map_of d c =
          (if filter (\<lambda>a. area_region a = c) xs = [] then None
           else Some (filter (\<lambda>a. area_region a = c) xs)))"

section \<open>The encodings of the allele frequency\<close>

text \<open>
  The three encodings as the specification names them: \<open>AF\<close> of the sample, \<open>AD\<close> of
  the sample combined with \<open>DP\<close> of the record, and \<open>AF\<close> of the info of a record with
  at most one sample.
\<close>

definition encoding_sample_AF :: "(string \<rightharpoonup> vcf_value) \<Rightarrow> bool" where
  "encoding_sample_AF sample = has_key sample ''AF''"

definition encoding_sample_AD_DP :: "vcf_record \<Rightarrow> (string \<rightharpoonup> vcf_value) \<Rightarrow> bool" where
  "encoding_sample_AD_DP record sample =
     (has_key sample ''AD'' \<and> has_key (record_info record) ''DP'')"

definition encoding_info_AF :: "vcf_record \<Rightarrow> bool" where
  "encoding_info_AF record =
     (length (record_samples record) \<le> 1 \<and> has_key (record_info record) ''AF'')"

section \<open>The depth lines of one sample\<close>

text \<open>
  The words used to state the properties of the coverage loop. The entry of a line of the
  depth file is its position chromosome:position and its depth, when the line splits into
  three fields. A position is covered for a sample when its variant has a coverage for the
  sample. \<open>with_depths\<close> adds to the variants the depths of a list of entries for one
  sample, each at its position, and changes nothing else.
\<close>

definition depth_entry :: "string \<Rightarrow> (string \<times> string) option" where
  "depth_entry line =
     (case split tab (strip line) of
        [chrom, pos, depth] \<Rightarrow> Some (chrom @ '':'' @ pos, depth)
      | _ \<Rightarrow> None)"

definition covered :: "string \<Rightarrow> (string \<rightharpoonup> variant) \<Rightarrow> string \<Rightarrow> bool" where
  "covered spl variants pos_id =
     (case variants pos_id of None \<Rightarrow> False | Some v \<Rightarrow> has_key (variant_coverage v) spl)"

definition with_depths ::
  "string \<Rightarrow> (string \<times> string) list \<Rightarrow> (string \<rightharpoonup> variant) \<Rightarrow> (string \<rightharpoonup> variant)"
where
  "with_depths spl entries variants =
     (\<lambda>pos_id. map_option
        (\<lambda>v. case map_of entries pos_id of
                None \<Rightarrow> v
              | Some depth \<Rightarrow> v\<lparr>variant_coverage := (variant_coverage v)(spl \<mapsto> depth)\<rparr>)
        (variants pos_id))"

section \<open>Example inputs\<close>

text \<open>The panel of two areas on \<open>chr1\<close> used in the examples below.\<close>

definition area_A :: area where
  "area_A = \<lparr>area_region = ''chr1'', area_start = 101, area_end = 150, area_id = ''A'',
     area_strand = ''+''\<rparr>"

definition area_B :: area where
  "area_B = \<lparr>area_region = ''chr1'', area_start = 201, area_end = 250, area_id = ''B'',
     area_strand = ''-''\<rparr>"

text \<open>An area shorter than the anchor offset used with it.\<close>

definition area_short :: area where
  "area_short = \<lparr>area_region = ''chr1'', area_start = 100, area_end = 101, area_id = ''S'',
     area_strand = ''+''\<rparr>"

definition mk_read :: "int \<Rightarrow> int \<Rightarrow> bool \<Rightarrow> bool \<Rightarrow> read" where
  "mk_read s e rv r1 =
     \<lparr>reference_start = s, reference_end = e, is_reverse = rv, is_read1 = r1\<rparr>"

text \<open>Panel files: a line is its fields joined by tabs, with the line end.\<close>

definition tsv :: "string list \<Rightarrow> string" where
  "tsv fs = foldr (\<lambda>f r. f @ (if r = [] then [newline] else tab # r)) fs []"

definition area_C :: area where
  "area_C = \<lparr>area_region = ''chr2'', area_start = 11, area_end = 60, area_id = ''C'',
     area_strand = ''+''\<rparr>"

definition panel_AB :: "string list" where
  "panel_AB =
     [''track name=panel'',
      tsv [''chr2'', ''10'', ''60'', ''C'', ''0'', ''+''],
      tsv [''chr1'', ''200'', ''250'', ''B'', ''0'', ''-''],
      ''# amplicons'',
      tsv [''chr1'', ''100'', ''150'', ''A'', ''0'', ''+'']]"




text \<open>A panel of two lines with the same id.\<close>

definition panel_dup :: "string list" where
  "panel_dup =
     [tsv [''chr1'', ''200'', ''250'', ''A'', ''0'', ''-''],
      tsv [''chr1'', ''100'', ''150'', ''A'', ''0'', ''+'']]"

text \<open>
  A record of two samples with \<open>AD\<close> only and without \<open>DP\<close> in its info, a file that
  holds it, and a record of two samples without any field, with \<open>AF\<close> in its info.
\<close>

definition sample_AD :: "string \<rightharpoonup> vcf_value" where
  "sample_AD = [''AD'' \<mapsto> Numbers [10, 5]]"

definition record_no_DP :: vcf_record where
  "record_no_DP = \<lparr>record_chrom = ''chr1'', record_pos = 100, record_alt = [''A''],
     record_samples = [(''s1'', sample_AD), (''s2'', sample_AD)],
     record_info = Map.empty\<rparr>"

definition file_no_DP :: vcf_file where
  "file_no_DP = \<lparr>file_samples = [''s1'', ''s2''], file_records = [record_no_DP]\<rparr>"

definition record_none :: vcf_record where
  "record_none = \<lparr>record_chrom = ''chr1'', record_pos = 100, record_alt = [''A''],
     record_samples = [(''s1'', Map.empty), (''s2'', Map.empty)],
     record_info = [''AF'' \<mapsto> Numbers [1 / 2]]\<rparr>"

text \<open>One variant without coverage, and a line of a depth file for it.\<close>

definition variant_0 :: variant where
  "variant_0 = \<lparr>variant_chrom = ''chr1'', variant_pos = 100, variant_alleles = Map.empty,
     variant_coverage = Map.empty\<rparr>"

definition variants_0 :: "string \<rightharpoonup> variant" where
  "variants_0 = [''chr1:100'' \<mapsto> variant_0]"

definition depth_line :: string where
  "depth_line = ''chr1'' @ [tab] @ ''100'' @ [tab] @ ''35'' @ [newline]"

section \<open>Properties of the matcher\<close>

lemma getSourceRegion_branches:
  "getSourceRegion rd regions anchor_offset =
     (if is_reverse rd then reverse_loop (reference_end rd) anchor_offset regions
      else forward_loop (reference_start rd + 1) anchor_offset regions)"
  by (simp add: getSourceRegion_def Let_def)

lemma sorted_start_end_Cons:
  assumes "sorted (map start_end (a # regions))" and "b \<in> set regions"
  shows "area_start a \<le> area_start b"
  using assms by (auto simp: start_end_def)

lemma forward_loop_find:
  assumes "sorted (map start_end regions)"
  shows "forward_loop ref_start anchor_offset regions =
         find (\<lambda>r. area_start r \<le> ref_start \<and> ref_start \<le> area_start r + anchor_offset) regions"
  using assms
proof (induction regions)
  case Nil
  show ?case by simp
next
  case (Cons a regions)
  have tail: "sorted (map start_end regions)"
    using Cons.prems by simp
  show ?case
  proof (cases "ref_start < area_start a")
    case True
    have "\<forall>b \<in> set regions. \<not> area_start b \<le> ref_start"
      using sorted_start_end_Cons [OF Cons.prems] True by fastforce
    then have "find (\<lambda>r. area_start r \<le> ref_start \<and> ref_start \<le> area_start r + anchor_offset) regions = None"
      by (auto simp: find_None_iff)
    with True show ?thesis by simp
  next
    case False
    with Cons.IH [OF tail] show ?thesis by simp
  qed
qed

lemma reverse_loop_find:
  "reverse_loop ref_end anchor_offset regions =
   find (\<lambda>r. area_end r - anchor_offset \<le> ref_end \<and> ref_end \<le> area_end r)
     (takeWhile (\<lambda>r. \<not> ref_end < area_start r) regions)"
  by (induction regions) auto

lemma reverse_loop_Some:
  "reverse_loop ref_end anchor_offset regions = Some r \<Longrightarrow>
   r \<in> set regions \<and> area_start r \<le> ref_end \<and> ref_end \<le> area_end r
     \<and> area_end r - anchor_offset \<le> ref_end"
  by (induction regions) (auto split: if_splits)

lemma forward_loop_Some:
  "forward_loop ref_start anchor_offset regions = Some r \<Longrightarrow>
   r \<in> set regions \<and> area_start r \<le> ref_start \<and> ref_start \<le> area_start r + anchor_offset"
  by (induction regions) (auto split: if_splits)

text \<open>
  C1. For a forward read (\<^verbatim>\<open>is_reverse\<close> false) with anchoring coordinate
  \<open>ref_start = reference_start + 1\<close>, a list of areas sorted ascending by (start, end) and
  an anchor offset that is not negative, \<^verbatim>\<open>getSourceRegion\<close> returns the first area of the
  list with \<open>start \<le> ref_start \<le> start + anchor_offset\<close>, and \<open>None\<close> when the list has no
  such area. On the boundary, \<open>ref_start = start + anchor_offset\<close> is matched and
  \<open>ref_start = start + anchor_offset + 1\<close> is not; the empty list gives \<open>None\<close>.
\<close>

theorem getSourceRegion_forward:
  assumes "\<not> is_reverse rd"
    and "sorted (map start_end regions)"
    and "0 \<le> anchor_offset"
  shows "getSourceRegion rd regions anchor_offset =
           find (\<lambda>r. area_start r \<le> reference_start rd + 1
                    \<and> reference_start rd + 1 \<le> area_start r + anchor_offset) regions
         \<and> (getSourceRegion rd regions anchor_offset = None \<longleftrightarrow>
              \<not> (\<exists>r \<in> set regions. area_start r \<le> reference_start rd + 1
                    \<and> reference_start rd + 1 \<le> area_start r + anchor_offset))
         \<and> (reference_start rd + 1 = area_start a + anchor_offset \<longrightarrow>
              getSourceRegion rd [a] anchor_offset = Some a)
         \<and> (reference_start rd + 1 = area_start a + anchor_offset + 1 \<longrightarrow>
              getSourceRegion rd [a] anchor_offset = None)
         \<and> getSourceRegion rd [] anchor_offset = None"
proof -
  have eq: "getSourceRegion rd regions anchor_offset =
      find (\<lambda>r. area_start r \<le> reference_start rd + 1
               \<and> reference_start rd + 1 \<le> area_start r + anchor_offset) regions"
    using assms(1) forward_loop_find [OF assms(2)] by (simp add: getSourceRegion_branches)
  have none: "getSourceRegion rd regions anchor_offset = None \<longleftrightarrow>
      \<not> (\<exists>r \<in> set regions. area_start r \<le> reference_start rd + 1
            \<and> reference_start rd + 1 \<le> area_start r + anchor_offset)"
    unfolding eq by (auto simp: find_None_iff)
  have on: "reference_start rd + 1 = area_start a + anchor_offset \<longrightarrow>
      getSourceRegion rd [a] anchor_offset = Some a"
    using assms(1,3) by (simp add: getSourceRegion_branches)
  have off: "reference_start rd + 1 = area_start a + anchor_offset + 1 \<longrightarrow>
      getSourceRegion rd [a] anchor_offset = None"
    using assms(1,3) by (simp add: getSourceRegion_branches)
  have empty: "getSourceRegion rd [] anchor_offset = None"
    using assms(1) by (simp add: getSourceRegion_branches)
  from eq none on off empty show ?thesis by blast
qed

theorem getSourceRegion_forward_witness:
  "\<not> is_reverse (mk_read 101 180 False True)
   \<and> sorted (map start_end [area_A, area_B])
   \<and> (0::int) \<le> 4
   \<and> getSourceRegion (mk_read 101 180 False True) [area_A, area_B] 4 = Some area_A
   \<and> getSourceRegion (mk_read 104 180 False True) [area_A] 4 = Some area_A
   \<and> getSourceRegion (mk_read 105 180 False True) [area_A] 4 = None"
proof -
  have h1: "\<not> is_reverse (mk_read 101 180 False True)"
    and h1': "\<not> is_reverse (mk_read 104 180 False True)"
    and h1'': "\<not> is_reverse (mk_read 105 180 False True)"
    by (simp_all add: mk_read_def)
  have h2: "sorted (map start_end [area_A, area_B])"
    by (simp add: start_end_def area_A_def area_B_def)
  have h3: "(0::int) \<le> 4" by simp
  have "getSourceRegion (mk_read 101 180 False True) [area_A, area_B] 4 = Some area_A"
    using getSourceRegion_forward [OF h1 h2 h3]
    by (simp add: mk_read_def area_A_def area_B_def)
  moreover have "getSourceRegion (mk_read 104 180 False True) [area_A] 4 = Some area_A"
    using getSourceRegion_forward [OF h1' h2 h3, of area_A]
    by (simp add: mk_read_def area_A_def)
  moreover have "getSourceRegion (mk_read 105 180 False True) [area_A] 4 = None"
    using getSourceRegion_forward [OF h1'' h2 h3, of area_A]
    by (simp add: mk_read_def area_A_def)
  ultimately show ?thesis using h1 h2 h3 by blast
qed

text \<open>
  C2, as the code has it. For a reverse read with anchoring coordinate
  \<open>ref_end = reference_end\<close>, \<^verbatim>\<open>getSourceRegion\<close> walks the list in its order, gives
  \<open>None\<close> as soon as the current area has \<open>ref_end < start\<close>, and otherwise returns the
  first area with \<open>end - anchor_offset \<le> ref_end \<le> end\<close>: the result is the first such
  area among those standing before the first area with \<open>ref_end < start\<close>. On the
  boundary, an area with \<open>start \<le> ref_end\<close> is returned for
  \<open>ref_end = end - anchor_offset\<close>, and no area is returned for
  \<open>ref_end = end - anchor_offset - 1\<close>.
\<close>

theorem getSourceRegion_reverse:
  assumes "is_reverse rd"
    and "0 \<le> anchor_offset"
  shows "getSourceRegion rd regions anchor_offset =
           find (\<lambda>r. area_end r - anchor_offset \<le> reference_end rd
                    \<and> reference_end rd \<le> area_end r)
             (takeWhile (\<lambda>r. \<not> reference_end rd < area_start r) regions)
         \<and> (reference_end rd < area_start a \<longrightarrow>
              getSourceRegion rd (a # regions) anchor_offset = None)
         \<and> (area_start a \<le> reference_end rd
              \<and> reference_end rd = area_end a - anchor_offset \<longrightarrow>
              getSourceRegion rd (a # regions) anchor_offset = Some a)
         \<and> (reference_end rd = area_end a - anchor_offset - 1 \<longrightarrow>
              getSourceRegion rd [a] anchor_offset = None)"
proof -
  have walk: "getSourceRegion rd regions anchor_offset =
      find (\<lambda>r. area_end r - anchor_offset \<le> reference_end rd
               \<and> reference_end rd \<le> area_end r)
        (takeWhile (\<lambda>r. \<not> reference_end rd < area_start r) regions)"
    using assms(1) by (simp add: getSourceRegion_branches reverse_loop_find)
  have stop: "reference_end rd < area_start a \<longrightarrow>
      getSourceRegion rd (a # regions) anchor_offset = None"
    using assms(1) by (simp add: getSourceRegion_branches)
  have on: "area_start a \<le> reference_end rd
      \<and> reference_end rd = area_end a - anchor_offset \<longrightarrow>
      getSourceRegion rd (a # regions) anchor_offset = Some a"
    using assms by (simp add: getSourceRegion_branches)
  have off: "reference_end rd = area_end a - anchor_offset - 1 \<longrightarrow>
      getSourceRegion rd [a] anchor_offset = None"
    using assms by (simp add: getSourceRegion_branches)
  from walk stop on off show ?thesis by blast
qed

theorem getSourceRegion_reverse_witness:
  "is_reverse (mk_read 200 248 True True)
   \<and> (0::int) \<le> 4
   \<and> getSourceRegion (mk_read 200 248 True True) [area_A, area_B] 4 = Some area_B
   \<and> getSourceRegion (mk_read 200 246 True True) [area_B] 4 = Some area_B
   \<and> getSourceRegion (mk_read 200 245 True True) [area_B] 4 = None"
proof -
  have h1: "is_reverse (mk_read 200 248 True True)"
    and h1': "is_reverse (mk_read 200 246 True True)"
    and h1'': "is_reverse (mk_read 200 245 True True)"
    by (simp_all add: mk_read_def)
  have h2: "(0::int) \<le> 4" by simp
  have "getSourceRegion (mk_read 200 248 True True) [area_A, area_B] 4 = Some area_B"
    using getSourceRegion_reverse [OF h1 h2, of "[area_A, area_B]"]
    by (simp add: mk_read_def area_A_def area_B_def)
  moreover have "getSourceRegion (mk_read 200 246 True True) [area_B] 4 = Some area_B"
    using getSourceRegion_reverse [OF h1' h2, of "[]" area_B]
    by (simp add: mk_read_def area_B_def)
  moreover have "getSourceRegion (mk_read 200 245 True True) [area_B] 4 = None"
    using getSourceRegion_reverse [OF h1'' h2, of "[]" area_B]
    by (simp add: mk_read_def area_B_def)
  ultimately show ?thesis using h1 h2 by blast
qed

text \<open>
  C2 as stated fails on its boundary for an area shorter than the anchor offset: with the
  area from 100 to 101 and the offset 4, the reverse read with
  \<open>ref_end = end - anchor_offset = 97\<close> ends before the start of the area, the walk stops
  on line 90 and no area is returned.
\<close>

theorem getSourceRegion_reverse_boundary_counterexample:
  "is_reverse (mk_read 90 97 True True)
   \<and> (0::int) \<le> 4
   \<and> sorted (map start_end [area_short])
   \<and> area_start area_short \<le> area_end area_short
   \<and> reference_end (mk_read 90 97 True True) = area_end area_short - 4
   \<and> getSourceRegion (mk_read 90 97 True True) [area_short] 4 = None"
  by (simp add: getSourceRegion_branches mk_read_def area_short_def start_end_def)

text \<open>
  C4. The strand validator answers true for exactly four combinations of
  (\<^verbatim>\<open>is_read1\<close>, \<^verbatim>\<open>is_reverse\<close>, strand of the area): (first in pair, reverse, \<open>-\<close>),
  (first in pair, forward, \<open>+\<close>), (second in pair, reverse, \<open>+\<close>) and
  (second in pair, forward, \<open>-\<close>); every other combination is answered false. This holds
  for any strand text, in particular for \<open>+\<close> and \<open>-\<close>.
\<close>

theorem hasValidStrand_table:
  "hasValidStrand rd ampl_region =
     ((is_read1 rd \<and> is_reverse rd \<and> area_strand ampl_region = ''-'')
      \<or> (is_read1 rd \<and> \<not> is_reverse rd \<and> area_strand ampl_region = ''+'')
      \<or> (\<not> is_read1 rd \<and> is_reverse rd \<and> area_strand ampl_region = ''+'')
      \<or> (\<not> is_read1 rd \<and> \<not> is_reverse rd \<and> area_strand ampl_region = ''-''))"
  by (simp add: hasValidStrand_def)

theorem hasValidStrand_table_witness:
  "hasValidStrand (mk_read 101 180 False True) area_A
   \<and> \<not> hasValidStrand (mk_read 101 180 False False) area_A
   \<and> hasValidStrand (mk_read 200 248 True True) area_B
   \<and> \<not> hasValidStrand (mk_read 200 248 True False) area_B"
  using hasValidStrand_table [of "mk_read 101 180 False True" area_A]
    hasValidStrand_table [of "mk_read 101 180 False False" area_A]
    hasValidStrand_table [of "mk_read 200 248 True True" area_B]
    hasValidStrand_table [of "mk_read 200 248 True False" area_B]
  by (simp add: mk_read_def area_A_def area_B_def)

text \<open>
  C10. Whenever \<^verbatim>\<open>getSourceRegion\<close> returns an area for a reverse read, the reference end
  of the read lies inside the area: \<open>start \<le> ref_end \<le> end\<close>. For a forward read only
  the lower bound \<open>start \<le> ref_start\<close> holds for the returned area: there are a forward
  read, a sorted list of areas with \<open>start \<le> end\<close> and an anchor offset for which the
  returned area ends before \<open>ref_start\<close>.
\<close>

theorem getSourceRegion_containment:
  "(is_reverse rd \<longrightarrow> getSourceRegion rd regions anchor_offset = Some r \<longrightarrow>
      r \<in> set regions \<and> area_start r \<le> reference_end rd \<and> reference_end rd \<le> area_end r)
   \<and> (\<not> is_reverse rd \<longrightarrow> getSourceRegion rd regions anchor_offset = Some r \<longrightarrow>
      r \<in> set regions \<and> area_start r \<le> reference_start rd + 1)
   \<and> (\<exists>rd' regions' anchor_offset' r'.
        \<not> is_reverse rd' \<and> 0 \<le> anchor_offset' \<and> sorted (map start_end regions')
        \<and> list_all (\<lambda>a. area_start a \<le> area_end a) regions'
        \<and> getSourceRegion rd' regions' anchor_offset' = Some r'
        \<and> area_end r' < reference_start rd' + 1)"
proof -
  have rev: "is_reverse rd \<longrightarrow> getSourceRegion rd regions anchor_offset = Some r \<longrightarrow>
      r \<in> set regions \<and> area_start r \<le> reference_end rd \<and> reference_end rd \<le> area_end r"
    using reverse_loop_Some [of "reference_end rd" anchor_offset regions r]
    by (simp add: getSourceRegion_branches)
  have fwd: "\<not> is_reverse rd \<longrightarrow> getSourceRegion rd regions anchor_offset = Some r \<longrightarrow>
      r \<in> set regions \<and> area_start r \<le> reference_start rd + 1"
    using forward_loop_Some [of "reference_start rd + 1" anchor_offset regions r]
    by (simp add: getSourceRegion_branches)
  have "\<not> is_reverse (mk_read 102 130 False True) \<and> (0::int) \<le> 4
      \<and> sorted (map start_end [area_short])
      \<and> list_all (\<lambda>a. area_start a \<le> area_end a) [area_short]
      \<and> getSourceRegion (mk_read 102 130 False True) [area_short] 4 = Some area_short
      \<and> area_end area_short < reference_start (mk_read 102 130 False True) + 1"
    by (simp add: getSourceRegion_branches mk_read_def area_short_def)
  then have ex: "\<exists>rd' regions' anchor_offset' r'.
        \<not> is_reverse rd' \<and> 0 \<le> anchor_offset' \<and> sorted (map start_end regions')
        \<and> list_all (\<lambda>a. area_start a \<le> area_end a) regions'
        \<and> getSourceRegion rd' regions' anchor_offset' = Some r'
        \<and> area_end r' < reference_start rd' + 1"
    by blast
  from rev fwd ex show ?thesis by blast
qed

theorem getSourceRegion_containment_witness:
  "is_reverse (mk_read 200 248 True True)
   \<and> getSourceRegion (mk_read 200 248 True True) [area_A, area_B] 4 = Some area_B
   \<and> area_start area_B \<le> reference_end (mk_read 200 248 True True)
   \<and> reference_end (mk_read 200 248 True True) \<le> area_end area_B
   \<and> \<not> is_reverse (mk_read 101 180 False True)
   \<and> getSourceRegion (mk_read 101 180 False True) [area_A, area_B] 4 = Some area_A
   \<and> area_start area_A \<le> reference_start (mk_read 101 180 False True) + 1"
proof -
  have r: "is_reverse (mk_read 200 248 True True)"
    and f: "\<not> is_reverse (mk_read 101 180 False True)"
    by (simp_all add: mk_read_def)
  have rB: "getSourceRegion (mk_read 200 248 True True) [area_A, area_B] 4 = Some area_B"
    by (simp add: getSourceRegion_branches mk_read_def area_A_def area_B_def)
  have fA: "getSourceRegion (mk_read 101 180 False True) [area_A, area_B] 4 = Some area_A"
    by (simp add: getSourceRegion_branches mk_read_def area_A_def area_B_def)
  from getSourceRegion_containment [of "mk_read 200 248 True True" "[area_A, area_B]" 4 area_B]
    r rB
  have "area_start area_B \<le> reference_end (mk_read 200 248 True True)
      \<and> reference_end (mk_read 200 248 True True) \<le> area_end area_B"
    by blast
  moreover
  from getSourceRegion_containment [of "mk_read 101 180 False True" "[area_A, area_B]" 4 area_A]
    f fA
  have "area_start area_A \<le> reference_start (mk_read 101 180 False True) + 1"
    by blast
  ultimately show ?thesis using r f rB fA by blast
qed

section \<open>Properties of the panel reader\<close>


lemma area_of_line_Inr: "area_of_line line = Inr a \<longleftrightarrow> line_yields line a"
  by (cases a) (auto simp: area_of_line_def line_yields_def item_def Let_def split: sum.splits)

lemma area_of_line_well_formed: "well_formed_line line \<longleftrightarrow> (\<exists>a. area_of_line line = Inr a)"
  by (auto simp: area_of_line_def well_formed_line_def int_text_def item_def Let_def split: sum.splits)


lemma loop_Inr:
  "well_formed_panel lines \<Longrightarrow>
   \<exists>new. getSelectedAreas_loop acc lines = Inr (acc @ new)
     \<and> list_all2 line_yields (filter is_data_line lines) new"
proof (induction lines arbitrary: acc)
  case Nil
  show ?case by simp
next
  case (Cons l lines)
  have wf: "well_formed_panel lines"
    using Cons.prems by (simp add: well_formed_panel_def)
  show ?case
  proof (cases "is_data_line l")
    case False
    with Cons.IH [OF wf, of acc] show ?thesis by simp
  next
    case True
    with Cons.prems have "well_formed_line l"
      by (simp add: well_formed_panel_def)
    then obtain a where a: "area_of_line l = Inr a"
      using area_of_line_well_formed by blast
    then have y: "line_yields l a"
      by (simp add: area_of_line_Inr)
    from Cons.IH [OF wf, of "acc @ [a]"] obtain new where
      new: "getSelectedAreas_loop (acc @ [a]) lines = Inr ((acc @ [a]) @ new)"
        "list_all2 line_yields (filter is_data_line lines) new"
      by blast
    have "getSelectedAreas_loop acc (l # lines) = Inr (acc @ (a # new))"
      using True a new(1) by simp
    moreover have "list_all2 line_yields (filter is_data_line (l # lines)) (a # new)"
      using True y new(2) by simp
    ultimately show ?thesis by blast
  qed
qed


lemma group_step_update:
  "group_step d a =
     AList.update (area_region a)
       ((case map_of d (area_region a) of None \<Rightarrow> [] | Some l \<Rightarrow> l) @ [a]) d"
  by (auto simp: group_step_def Let_def update_conv' split: option.splits)

lemma mset_concat_update:
  "mset (concat (map snd (AList.update k ((case map_of d k of None \<Rightarrow> [] | Some l \<Rightarrow> l) @ [a]) d)))
   = add_mset a (mset (concat (map snd d)))"
  by (induction d) auto

lemma mset_group:
  "mset (concat (map snd (foldl group_step d xs))) = mset (concat (map snd d)) + mset xs"
  by (induction xs arbitrary: d) (simp_all add: group_step_update mset_concat_update)

lemma grouped_step: "grouped d xs \<Longrightarrow> grouped (group_step d a) (xs @ [a])"
  unfolding grouped_def group_step_update
  by (auto simp: update_conv' distinct_update)

lemma grouped_foldl: "grouped d xs \<Longrightarrow> grouped (foldl group_step d ys) (xs @ ys)"
proof (induction ys arbitrary: d xs)
  case Nil
  then show ?case by simp
next
  case (Cons y ys)
  from Cons.IH [OF grouped_step [OF Cons.prems, of y]] show ?case by simp
qed

lemma grouped_entry:
  assumes "grouped d xs" and "(c, as) \<in> set d"
  shows "as = filter (\<lambda>a. area_region a = c) xs \<and> as \<noteq> []"
proof -
  have "distinct (map fst d)"
    using assms(1) by (simp add: grouped_def)
  with assms(2) have "map_of d c = Some as"
    by simp
  moreover have "map_of d c =
      (if filter (\<lambda>a. area_region a = c) xs = [] then None
       else Some (filter (\<lambda>a. area_region a = c) xs))"
    using assms(1) by (simp add: grouped_def)
  ultimately show ?thesis
    by (auto split: if_splits)
qed

lemma sorted_filter_region:
  assumes "sorted (map sort_key_of xs)"
  shows "sorted (map start_end (filter (\<lambda>a. area_region a = c) xs))"
proof -
  have "sorted_wrt (\<lambda>a b. sort_key_of a \<le> sort_key_of b) (filter (\<lambda>a. area_region a = c) xs)"
    using assms by (simp add: sorted_map sorted_wrt_filter)
  then have "sorted_wrt (\<lambda>a b. start_end a \<le> start_end b) (filter (\<lambda>a. area_region a = c) xs)"
    by (rule sorted_wrt_mono_rel [rotated]) (auto simp: sort_key_of_def start_end_def)
  then show ?thesis by (simp add: sorted_map)
qed

lemma two_positions:
  assumes eq: "mset xs = mset ys" and ij: "i < j" and j: "j < length ys"
  shows "\<exists>p q. p \<noteq> q \<and> p < length xs \<and> q < length xs \<and> xs ! p = ys ! i \<and> xs ! q = ys ! j"
proof -
  have ys: "ys = take j ys @ ys ! j # drop (Suc j) ys"
    using j by (simp add: id_take_nth_drop)
  have "ys ! j \<in> set xs"
    using j mset_eq_setD [OF eq] by simp
  then obtain us vs where xs: "xs = us @ ys ! j # vs"
    by (meson split_list)
  have "mset xs = add_mset (ys ! j) (mset (us @ vs))"
    by (subst xs) simp
  moreover have "mset ys = add_mset (ys ! j) (mset (take j ys @ drop (Suc j) ys))"
    by (subst ys) simp
  ultimately have rest: "mset (us @ vs) = mset (take j ys @ drop (Suc j) ys)"
    using eq by simp
  have "ys ! i = take j ys ! i" and "i < length (take j ys)"
    using ij j by simp_all
  then have "ys ! i \<in> set (take j ys)"
    by (metis nth_mem)
  then have "ys ! i \<in> set (us @ vs)"
    using mset_eq_setD [OF rest] by simp
  then consider "ys ! i \<in> set us" | "ys ! i \<in> set vs"
    by auto
  then show ?thesis
  proof cases
    case 1
    then obtain p where p: "p < length us" "us ! p = ys ! i"
      by (auto simp: in_set_conv_nth)
    have "xs ! p = ys ! i" "xs ! length us = ys ! j" "p \<noteq> length us"
      "p < length xs" "length us < length xs"
      using p by (simp_all add: xs nth_append)
    then show ?thesis by blast
  next
    case 2
    then obtain p where p: "p < length vs" "vs ! p = ys ! i"
      by (auto simp: in_set_conv_nth)
    have "xs ! (length us + Suc p) = ys ! i" "xs ! length us = ys ! j"
      "length us + Suc p \<noteq> length us"
      "length us + Suc p < length xs" "length us < length xs"
      using p by (simp_all add: xs nth_append)
    then show ?thesis by blast
  qed
qed

lemma getSelectedAreas_Inr:
  assumes "well_formed_panel input_panel"
  shows "\<exists>selected_areas. getSelectedAreas input_panel = Inr selected_areas
     \<and> list_all2 line_yields (filter is_data_line input_panel) selected_areas"
  using loop_Inr [OF assms, of "[]"] by (simp add: getSelectedAreas_def)

lemma getSelectedAreasByChr_Inr:
  assumes "getSelectedAreas input_panel = Inr selected_areas"
  shows "\<exists>area_by_chr. getSelectedAreasByChr input_panel = Inr area_by_chr
     \<and> grouped area_by_chr (sort_key sort_key_of selected_areas)
     \<and> mset (concat (map snd area_by_chr)) = mset selected_areas"
proof -
  have "grouped [] []"
    by (simp add: grouped_def)
  from grouped_foldl [OF this, of "sort_key sort_key_of selected_areas"]
  have "grouped (foldl group_step [] (sort_key sort_key_of selected_areas))
      (sort_key sort_key_of selected_areas)"
    by simp
  moreover have "mset (concat (map snd (foldl group_step [] (sort_key sort_key_of selected_areas))))
      = mset selected_areas"
    by (simp add: mset_group)
  ultimately show ?thesis
    using assms by (simp add: getSelectedAreasByChr_def)
qed

text \<open>
  C3. For a well-formed panel \<^verbatim>\<open>getSelectedAreasByChr\<close> returns a dictionary from
  regions to lists of areas. Each read line yields one area, in the order of the file,
  with the start of the line plus one as its start and the end of the line as its end.
  The keys of the dictionary are distinct and its lists together hold the loaded areas,
  each as often as it was loaded. Every area stands in the list of its own region, and
  every list is sorted ascending by (start, end).
\<close>

theorem getSelectedAreasByChr_grouping:
  assumes "well_formed_panel input_panel"
  shows "\<exists>selected_areas area_by_chr.
      getSelectedAreas input_panel = Inr selected_areas
      \<and> getSelectedAreasByChr input_panel = Inr area_by_chr
      \<and> list_all2 line_yields (filter is_data_line input_panel) selected_areas
      \<and> distinct (map fst area_by_chr)
      \<and> mset (concat (map snd area_by_chr)) = mset selected_areas
      \<and> (\<forall>(chrom, areas) \<in> set area_by_chr.
            areas \<noteq> [] \<and> (\<forall>a \<in> set areas. area_region a = chrom)
            \<and> sorted (map start_end areas))"
proof -
  from getSelectedAreas_Inr [OF assms] obtain selected_areas where
    sa: "getSelectedAreas input_panel = Inr selected_areas"
      "list_all2 line_yields (filter is_data_line input_panel) selected_areas"
    by blast
  from getSelectedAreasByChr_Inr [OF sa(1)] obtain area_by_chr where
    d: "getSelectedAreasByChr input_panel = Inr area_by_chr"
      "grouped area_by_chr (sort_key sort_key_of selected_areas)"
      "mset (concat (map snd area_by_chr)) = mset selected_areas"
    by blast
  have dist: "distinct (map fst area_by_chr)"
    using d(2) by (simp add: grouped_def)
  have srt: "sorted (map sort_key_of (sort_key sort_key_of selected_areas))"
    by (rule sorted_sort_key)
  have each: "areas \<noteq> [] \<and> (\<forall>a \<in> set areas. area_region a = chrom)
      \<and> sorted (map start_end areas)"
    if "(chrom, areas) \<in> set area_by_chr" for chrom areas
  proof -
    from grouped_entry [OF d(2) that]
    have areas: "areas = filter (\<lambda>a. area_region a = chrom) (sort_key sort_key_of selected_areas)"
      and ne: "areas \<noteq> []"
      by blast+
    have "\<forall>a \<in> set areas. area_region a = chrom"
      by (subst areas) simp
    moreover have "sorted (map start_end areas)"
      by (subst areas) (rule sorted_filter_region [OF srt])
    ultimately show ?thesis using ne by simp
  qed
  then have "\<forall>(chrom, areas) \<in> set area_by_chr.
      areas \<noteq> [] \<and> (\<forall>a \<in> set areas. area_region a = chrom) \<and> sorted (map start_end areas)"
    by blast
  with sa d(1,3) dist show ?thesis by blast
qed

theorem getSelectedAreasByChr_grouping_witness:
  "well_formed_panel panel_AB
   \<and> getSelectedAreas panel_AB = Inr [area_C, area_B, area_A]
   \<and> getSelectedAreasByChr panel_AB = Inr [(''chr1'', [area_A, area_B]), (''chr2'', [area_C])]
   \<and> (\<exists>selected_areas area_by_chr.
      getSelectedAreas panel_AB = Inr selected_areas
      \<and> getSelectedAreasByChr panel_AB = Inr area_by_chr
      \<and> list_all2 line_yields (filter is_data_line panel_AB) selected_areas
      \<and> distinct (map fst area_by_chr)
      \<and> mset (concat (map snd area_by_chr)) = mset selected_areas
      \<and> (\<forall>(chrom, areas) \<in> set area_by_chr.
            areas \<noteq> [] \<and> (\<forall>a \<in> set areas. area_region a = chrom)
            \<and> sorted (map start_end areas)))"
proof -
  have wf: "well_formed_panel panel_AB"
    by code_simp
  have v1: "getSelectedAreas panel_AB = Inr [area_C, area_B, area_A]"
    by code_simp
  have v2: "getSelectedAreasByChr panel_AB =
      Inr [(''chr1'', [area_A, area_B]), (''chr2'', [area_C])]"
    by code_simp
  from wf v1 v2 getSelectedAreasByChr_grouping [OF wf] show ?thesis
    by blast
qed





text \<open>
  C9. Ids are not compared: when two read lines of a well-formed panel have the same id
  field, \<^verbatim>\<open>getSelectedAreasByChr\<close> returns a dictionary, the lists of which hold the
  areas of both lines at two different places, and as many areas as the file has read
  lines.
\<close>

theorem duplicate_id_not_checked:
  assumes "well_formed_panel input_panel"
    and "i < j"
    and "j < length (filter is_data_line input_panel)"
    and "fields_of (filter is_data_line input_panel ! i) ! 3 =
         fields_of (filter is_data_line input_panel ! j) ! 3"
  shows "\<exists>selected_areas area_by_chr p q.
      getSelectedAreas input_panel = Inr selected_areas
      \<and> getSelectedAreasByChr input_panel = Inr area_by_chr
      \<and> length selected_areas = length (filter is_data_line input_panel)
      \<and> line_yields (filter is_data_line input_panel ! i) (selected_areas ! i)
      \<and> line_yields (filter is_data_line input_panel ! j) (selected_areas ! j)
      \<and> area_id (selected_areas ! i) = area_id (selected_areas ! j)
      \<and> length (concat (map snd area_by_chr)) = length (filter is_data_line input_panel)
      \<and> p \<noteq> q
      \<and> p < length (concat (map snd area_by_chr))
      \<and> q < length (concat (map snd area_by_chr))
      \<and> concat (map snd area_by_chr) ! p = selected_areas ! i
      \<and> concat (map snd area_by_chr) ! q = selected_areas ! j"
proof -
  from getSelectedAreas_Inr [OF assms(1)] obtain selected_areas where
    sa: "getSelectedAreas input_panel = Inr selected_areas"
      "list_all2 line_yields (filter is_data_line input_panel) selected_areas"
    by blast
  from getSelectedAreasByChr_Inr [OF sa(1)] obtain area_by_chr where
    d: "getSelectedAreasByChr input_panel = Inr area_by_chr"
      "mset (concat (map snd area_by_chr)) = mset selected_areas"
    by blast
  have len: "length selected_areas = length (filter is_data_line input_panel)"
    using sa(2) by (simp add: list_all2_lengthD)
  have yi: "line_yields (filter is_data_line input_panel ! i) (selected_areas ! i)"
    and yj: "line_yields (filter is_data_line input_panel ! j) (selected_areas ! j)"
    using sa(2) assms(2,3) by (simp_all add: list_all2_nthD)
  have ids: "area_id (selected_areas ! i) = area_id (selected_areas ! j)"
    using yi yj assms(4) by (simp add: line_yields_def)
  have len': "length (concat (map snd area_by_chr)) = length (filter is_data_line input_panel)"
    using mset_eq_length [OF d(2)] len by simp
  from two_positions [OF d(2) assms(2)] assms(3) len obtain p q where
    "p \<noteq> q" "p < length (concat (map snd area_by_chr))"
    "q < length (concat (map snd area_by_chr))"
    "concat (map snd area_by_chr) ! p = selected_areas ! i"
    "concat (map snd area_by_chr) ! q = selected_areas ! j"
    by auto
  with sa(1) d(1) len yi yj ids len' show ?thesis
    by blast
qed

theorem duplicate_id_not_checked_witness:
  "well_formed_panel panel_dup
   \<and> getSelectedAreasByChr panel_dup =
       Inr [(''chr1'', [area_A, area_B\<lparr>area_id := ''A''\<rparr>])]
   \<and> (\<exists>selected_areas area_by_chr p q.
      getSelectedAreas panel_dup = Inr selected_areas
      \<and> getSelectedAreasByChr panel_dup = Inr area_by_chr
      \<and> area_id (selected_areas ! 0) = area_id (selected_areas ! 1)
      \<and> length (concat (map snd area_by_chr)) = length (filter is_data_line panel_dup)
      \<and> p \<noteq> q
      \<and> concat (map snd area_by_chr) ! p = selected_areas ! 0
      \<and> concat (map snd area_by_chr) ! q = selected_areas ! 1)"
proof -
  have wf: "well_formed_panel panel_dup"
    by code_simp
  have h2: "(0::nat) < 1" by simp
  have h3: "1 < length (filter is_data_line panel_dup)"
    by code_simp
  have h4: "fields_of (filter is_data_line panel_dup ! 0) ! 3 =
      fields_of (filter is_data_line panel_dup ! 1) ! 3"
    by code_simp
  have v: "getSelectedAreasByChr panel_dup =
      Inr [(''chr1'', [area_A, area_B\<lparr>area_id := ''A''\<rparr>])]"
    by code_simp
  from duplicate_id_not_checked [OF wf h2 h3 h4] wf v show ?thesis
    by blast
qed

section \<open>Properties of \<open>variantsToFreq.py\<close>\<close>

text \<open>
  C6. The exception of line 53 is what the source raises when no encoding is found, and
  it is raised for a sample without \<open>AF\<close> and \<open>AD\<close> in a record of two samples. But the
  second branch is entered on \<open>AD\<close> alone and line 49 looks \<open>DP\<close> up without the test
  that line 50 makes for \<open>AF\<close>: for a sample with \<open>AD\<close> in a record without \<open>DP\<close>, where
  none of the three encodings is there, the exception is the \<open>KeyError\<close> of the look-up.
  As written the script does not come that far: line 29 calls a name that line 13 does not
  bind, and the run ends there for every list of files that is not empty. With the name
  bound the run ends with the \<open>KeyError\<close>.
\<close>

theorem get_allele_freq_no_DP:
  "map_of (record_samples record_no_DP) ''s1'' = Some sample_AD
   \<and> \<not> encoding_sample_AF sample_AD
   \<and> \<not> encoding_sample_AD_DP record_no_DP sample_AD
   \<and> \<not> encoding_info_AF record_no_DP
   \<and> get_allele_freq true_div record_no_DP ''s1'' = Inl (KeyError ''DP'')
   \<and> get_allele_freq true_div record_no_DP ''s1''
       \<noteq> Inl (Exception (no_frequency_message record_no_DP))
   \<and> get_allele_freq true_div record_none ''s1''
       = Inl (Exception (no_frequency_message record_none))
   \<and> get_variants true_div open_vcf (current_vcf # var_files) = Inl (NameError ''VEPvcf'')
   \<and> get_variants_loop (''VEPvcf'' # module_names) true_div (\<lambda>path. file_no_DP) Map.empty
         [''a.vcf''] = Inl (KeyError ''DP'')"
proof -
  have sample: "map_of (record_samples record_no_DP) ''s1'' = Some sample_AD"
    by (simp add: record_no_DP_def)
  have enc: "\<not> encoding_sample_AF sample_AD"
    "\<not> encoding_sample_AD_DP record_no_DP sample_AD"
    "\<not> encoding_info_AF record_no_DP"
    by (simp_all add: record_no_DP_def sample_AD_def encoding_sample_AF_def
        encoding_sample_AD_DP_def encoding_info_AF_def has_key_def)
  have key: "get_allele_freq true_div record_no_DP ''s1'' = Inl (KeyError ''DP'')"
    by (simp add: record_no_DP_def sample_AD_def has_key_def get_allele_freq_def get_item_def)
  then have other: "get_allele_freq true_div record_no_DP ''s1''
      \<noteq> Inl (Exception (no_frequency_message record_no_DP))"
    by simp
  have none: "get_allele_freq true_div record_none ''s1''
      = Inl (Exception (no_frequency_message record_none))"
    by (simp add: record_none_def has_key_def get_allele_freq_def get_item_def)
  have name: "get_variants true_div open_vcf (current_vcf # var_files) = Inl (NameError ''VEPvcf'')"
    by (simp add: get_variants_def load_name_def module_names_def)
  have "samples_loop true_div record_no_DP Map.empty [''s1'', ''s2''] = Inl (KeyError ''DP'')"
    using key by simp
  then have "records_loop true_div [''s1'', ''s2''] Map.empty [record_no_DP] = Inl (KeyError ''DP'')"
    by (simp add: Let_def has_key_def get_item_def)
  then have bound: "get_variants_loop (''VEPvcf'' # module_names) true_div (\<lambda>path. file_no_DP)
      Map.empty [''a.vcf''] = Inl (KeyError ''DP'')"
    by (simp add: load_name_def file_no_DP_def)
  from sample enc key other none name bound show ?thesis
    by blast
qed

lemma store_depth_entry:
  assumes "depth_entry line = Some (pos_id, depth)"
  shows "store_depth spl variants line =
     (case variants pos_id of
        None \<Rightarrow> Inl (KeyError pos_id)
      | Some v \<Rightarrow>
          if has_key (variant_coverage v) spl
          then Inl (Exception (duplicate_depth_message pos_id))
          else Inr (variants(pos_id \<mapsto>
                 v\<lparr>variant_coverage := (variant_coverage v)(spl \<mapsto> depth)\<rparr>)))"
proof -
  from assms obtain chrom pos where
    "split tab (strip line) = [chrom, pos, depth]" and "pos_id = chrom @ '':'' @ pos"
    by (auto simp: depth_entry_def split: list.splits)
  then show ?thesis
    by (simp add: store_depth_def get_item_def Let_def split: option.splits)
qed

lemma covered_after_store:
  assumes "variants pos_id = Some v"
  shows "covered spl (variants(pos_id \<mapsto>
            v\<lparr>variant_coverage := (variant_coverage v)(spl \<mapsto> depth)\<rparr>)) q
         \<longleftrightarrow> q = pos_id \<or> covered spl variants q"
  using assms by (simp add: covered_def has_key_def)

lemma with_depths_Nil: "with_depths spl [] variants = variants"
proof
  fix q
  show "with_depths spl [] variants q = variants q"
    by (cases "variants q") (simp_all add: with_depths_def)
qed

lemma with_depths_Cons:
  assumes "variants pos_id = Some v" and "pos_id \<notin> fst ` set entries"
  shows "with_depths spl entries (variants(pos_id \<mapsto>
            v\<lparr>variant_coverage := (variant_coverage v)(spl \<mapsto> depth)\<rparr>))
         = with_depths spl ((pos_id, depth) # entries) variants"
proof
  fix q
  have "map_of entries pos_id = None"
    using assms(2) by (simp add: map_of_eq_None_iff)
  then show "with_depths spl entries (variants(pos_id \<mapsto>
            v\<lparr>variant_coverage := (variant_coverage v)(spl \<mapsto> depth)\<rparr>)) q
         = with_depths spl ((pos_id, depth) # entries) variants q"
    using assms(1) by (simp add: with_depths_def)
qed

lemma store_depths_stored:
  assumes "map depth_entry lines = map Some entries"
    and "fst ` set entries \<subseteq> dom variants"
    and "distinct (map fst entries)"
    and "\<forall>p \<in> fst ` set entries. \<not> covered spl variants p"
  shows "store_depths spl variants lines = Inr (with_depths spl entries variants)"
  using assms
proof (induction lines arbitrary: entries variants)
  case Nil
  then show ?case by (simp add: with_depths_Nil)
next
  case (Cons line lines)
  from Cons.prems(1) obtain pos_id depth rest where
    entries: "entries = (pos_id, depth) # rest"
    and entry: "depth_entry line = Some (pos_id, depth)"
    and rest: "map depth_entry lines = map Some rest"
    by (cases entries) auto
  from Cons.prems(2) entries obtain v where v: "variants pos_id = Some v"
    by auto
  let ?variants1 = "variants(pos_id \<mapsto>
      v\<lparr>variant_coverage := (variant_coverage v)(spl \<mapsto> depth)\<rparr>)"
  have fresh: "pos_id \<notin> fst ` set rest" and dist: "distinct (map fst rest)"
    using Cons.prems(3) entries by simp_all
  have "\<not> covered spl variants pos_id"
    using Cons.prems(4) entries by simp
  then have step: "store_depths spl variants (line # lines) = store_depths spl ?variants1 lines"
    using v by (simp add: store_depth_entry [OF entry] covered_def)
  have dom1: "fst ` set rest \<subseteq> dom ?variants1"
    using Cons.prems(2) entries by auto
  have "\<not> covered spl ?variants1 p" if "p \<in> fst ` set rest" for p
  proof -
    have "p \<noteq> pos_id" using that fresh by blast
    moreover have "\<not> covered spl variants p"
      using that Cons.prems(4) entries by auto
    ultimately show ?thesis
      using v by (simp add: covered_after_store)
  qed
  then have "\<forall>p \<in> fst ` set rest. \<not> covered spl ?variants1 p"
    by blast
  from Cons.IH [OF rest dom1 dist this]
  have "store_depths spl ?variants1 lines = Inr (with_depths spl rest ?variants1)" .
  also have "with_depths spl rest ?variants1 = with_depths spl entries variants"
    unfolding entries using v fresh
    by (rule with_depths_Cons [where variants = variants and pos_id = pos_id])
  finally show ?case unfolding step .
qed

lemma store_depths_abort:
  assumes "map depth_entry lines = map Some entries"
    and "fst ` set entries \<subseteq> dom variants"
    and "\<not> (distinct (map fst entries) \<and> (\<forall>p \<in> fst ` set entries. \<not> covered spl variants p))"
  shows "\<exists>p \<in> fst ` set entries.
           store_depths spl variants lines = Inl (Exception (duplicate_depth_message p))"
  using assms
proof (induction lines arbitrary: entries variants)
  case Nil
  then show ?case by simp
next
  case (Cons line lines)
  from Cons.prems(1) obtain pos_id depth rest where
    entries: "entries = (pos_id, depth) # rest"
    and entry: "depth_entry line = Some (pos_id, depth)"
    and rest: "map depth_entry lines = map Some rest"
    by (cases entries) auto
  from Cons.prems(2) entries obtain v where v: "variants pos_id = Some v"
    by auto
  show ?case
  proof (cases "covered spl variants pos_id")
    case True
    then have "store_depths spl variants (line # lines) =
        Inl (Exception (duplicate_depth_message pos_id))"
      using v by (simp add: store_depth_entry [OF entry] covered_def)
    moreover have "pos_id \<in> fst ` set entries"
      using entries by simp
    ultimately show ?thesis by blast
  next
    case False
    let ?variants1 = "variants(pos_id \<mapsto>
        v\<lparr>variant_coverage := (variant_coverage v)(spl \<mapsto> depth)\<rparr>)"
    have step: "store_depths spl variants (line # lines) = store_depths spl ?variants1 lines"
      using v False by (simp add: store_depth_entry [OF entry] covered_def)
    have dom1: "fst ` set rest \<subseteq> dom ?variants1"
      using Cons.prems(2) entries by auto
    have bad: "\<not> (distinct (map fst rest) \<and> (\<forall>p \<in> fst ` set rest. \<not> covered spl ?variants1 p))"
    proof
      assume ok: "distinct (map fst rest) \<and> (\<forall>p \<in> fst ` set rest. \<not> covered spl ?variants1 p)"
      have "pos_id \<notin> fst ` set rest"
      proof
        assume "pos_id \<in> fst ` set rest"
        with ok have "\<not> covered spl ?variants1 pos_id" by blast
        then show False using v by (simp add: covered_after_store)
      qed
      moreover have "\<not> covered spl variants p" if "p \<in> fst ` set rest" for p
      proof -
        from ok that have "\<not> covered spl ?variants1 p" by blast
        then show ?thesis using v by (simp add: covered_after_store)
      qed
      ultimately have "distinct (map fst entries)
          \<and> (\<forall>p \<in> fst ` set entries. \<not> covered spl variants p)"
        using ok False entries by auto
      with Cons.prems(3) show False by blast
    qed
    from Cons.IH [OF rest dom1 bad] obtain p where
      p: "p \<in> fst ` set rest"
      "store_depths spl ?variants1 lines = Inl (Exception (duplicate_depth_message p))"
      by blast
    have "p \<in> fst ` set entries"
      using p(1) entries by auto
    with p(2) step show ?thesis by auto
  qed
qed

lemma store_depth_keeps:
  assumes "store_depth spl variants line = Inr variants'"
    and "variants p = Some v" and "variant_coverage v s = Some d"
  shows "\<exists>v'. variants' p = Some v' \<and> variant_coverage v' s = Some d"
  using assms
  by (auto simp: store_depth_def get_item_def has_key_def Let_def
      split: list.splits option.splits if_splits)

lemma store_depths_keeps:
  assumes "store_depths spl variants lines = Inr variants'"
    and "variants p = Some v" and "variant_coverage v s = Some d"
  shows "\<exists>v'. variants' p = Some v' \<and> variant_coverage v' s = Some d"
  using assms
proof (induction lines arbitrary: variants v)
  case Nil
  then show ?case by simp
next
  case (Cons line lines)
  from Cons.prems(1) obtain variants1 where
    step: "store_depth spl variants line = Inr variants1"
    and rest: "store_depths spl variants1 lines = Inr variants'"
    by (auto split: sum.splits)
  from store_depth_keeps [OF step Cons.prems(2,3)] obtain v1 where
    "variants1 p = Some v1" "variant_coverage v1 s = Some d"
    by blast
  from Cons.IH [OF rest this] show ?case .
qed

text \<open>
  C7. For a line of the depth file of a sample whose position is a key of \<^verbatim>\<open>variants\<close>:
  when the coverage of that position already has a value for the sample, the exception of
  line 88 is raised, with a message that holds the position; otherwise the depth is stored
  for the sample at that position and nothing else changes. For the loop over the lines of
  the file, all with positions that are keys of \<^verbatim>\<open>variants\<close>: when no position occurs
  twice and none is covered for the sample before, the loop ends with every depth stored
  at its position for the sample and nothing else changed; in every other case it ends
  with the exception of line 88 for one of the positions. A value stored for a sample at a
  position is still there, unchanged, after any run of the loop that ends without
  exception.
\<close>

theorem store_depth_once:
  "(split tab (strip line) = [chrom, pos, depth]
      \<and> variants (chrom @ '':'' @ pos) = Some v \<and> has_key (variant_coverage v) spl \<longrightarrow>
      store_depth spl variants line =
        Inl (Exception (duplicate_depth_message (chrom @ '':'' @ pos))))
   \<and> (split tab (strip line) = [chrom, pos, depth]
      \<and> variants (chrom @ '':'' @ pos) = Some v \<and> \<not> has_key (variant_coverage v) spl \<longrightarrow>
      store_depth spl variants line =
        Inr (variants(chrom @ '':'' @ pos \<mapsto>
               v\<lparr>variant_coverage := (variant_coverage v)(spl \<mapsto> depth)\<rparr>)))
   \<and> (\<exists>pre post. duplicate_depth_message pos_id = pre @ pos_id @ post)
   \<and> (map depth_entry lines = map Some entries \<and> fst ` set entries \<subseteq> dom variants
      \<and> distinct (map fst entries) \<and> (\<forall>p \<in> fst ` set entries. \<not> covered spl variants p) \<longrightarrow>
      store_depths spl variants lines = Inr (with_depths spl entries variants))
   \<and> (map depth_entry lines = map Some entries \<and> fst ` set entries \<subseteq> dom variants
      \<and> \<not> (distinct (map fst entries) \<and> (\<forall>p \<in> fst ` set entries. \<not> covered spl variants p)) \<longrightarrow>
      (\<exists>p \<in> fst ` set entries.
         store_depths spl variants lines = Inl (Exception (duplicate_depth_message p))))
   \<and> (store_depths spl variants lines = Inr variants'
      \<and> variants p = Some w \<and> variant_coverage w s = Some d \<longrightarrow>
      (\<exists>w'. variants' p = Some w' \<and> variant_coverage w' s = Some d))"
proof -
  have dup: "split tab (strip line) = [chrom, pos, depth]
      \<and> variants (chrom @ '':'' @ pos) = Some v \<and> has_key (variant_coverage v) spl \<longrightarrow>
      store_depth spl variants line =
        Inl (Exception (duplicate_depth_message (chrom @ '':'' @ pos)))"
    by (simp add: store_depth_def get_item_def Let_def)
  have new: "split tab (strip line) = [chrom, pos, depth]
      \<and> variants (chrom @ '':'' @ pos) = Some v \<and> \<not> has_key (variant_coverage v) spl \<longrightarrow>
      store_depth spl variants line =
        Inr (variants(chrom @ '':'' @ pos \<mapsto>
               v\<lparr>variant_coverage := (variant_coverage v)(spl \<mapsto> depth)\<rparr>))"
    by (simp add: store_depth_def get_item_def Let_def)
  have "duplicate_depth_message pos_id =
      (''The depth for variant '' @ [CHR 0x27]) @ pos_id @ ([CHR 0x27] @ '' already exists.'')"
    by (simp add: duplicate_depth_message_def)
  then have message: "\<exists>pre post. duplicate_depth_message pos_id = pre @ pos_id @ post"
    by blast
  have stored: "map depth_entry lines = map Some entries \<and> fst ` set entries \<subseteq> dom variants
      \<and> distinct (map fst entries) \<and> (\<forall>p \<in> fst ` set entries. \<not> covered spl variants p) \<longrightarrow>
      store_depths spl variants lines = Inr (with_depths spl entries variants)"
    using store_depths_stored [of lines entries variants spl] by blast
  have abort: "map depth_entry lines = map Some entries \<and> fst ` set entries \<subseteq> dom variants
      \<and> \<not> (distinct (map fst entries) \<and> (\<forall>p \<in> fst ` set entries. \<not> covered spl variants p)) \<longrightarrow>
      (\<exists>p \<in> fst ` set entries.
         store_depths spl variants lines = Inl (Exception (duplicate_depth_message p)))"
    using store_depths_abort [of lines entries variants spl] by blast
  have keeps: "store_depths spl variants lines = Inr variants'
      \<and> variants p = Some w \<and> variant_coverage w s = Some d \<longrightarrow>
      (\<exists>w'. variants' p = Some w' \<and> variant_coverage w' s = Some d)"
    using store_depths_keeps by blast
  show ?thesis
    by (intro conjI) (rule dup new message stored abort keeps)+
qed

theorem store_depth_once_witness:
  "map depth_entry [depth_line] = map Some [(''chr1:100'', ''35'')]
   \<and> fst ` set [(''chr1:100'', ''35'')] \<subseteq> dom variants_0
   \<and> \<not> covered ''s1'' variants_0 ''chr1:100''
   \<and> store_depths ''s1'' variants_0 [depth_line] =
       Inr (with_depths ''s1'' [(''chr1:100'', ''35'')] variants_0)
   \<and> map_option (\<lambda>v. variant_coverage v ''s1'')
        (with_depths ''s1'' [(''chr1:100'', ''35'')] variants_0 ''chr1:100'') = Some (Some ''35'')
   \<and> map depth_entry [depth_line, depth_line]
       = map Some [(''chr1:100'', ''35''), (''chr1:100'', ''35'')]
   \<and> store_depths ''s1'' variants_0 [depth_line, depth_line] =
       Inl (Exception (duplicate_depth_message ''chr1:100''))"
proof -
  have e: "depth_entry depth_line = Some (''chr1:100'', ''35'')"
    by (simp add: depth_entry_def depth_line_def strip_def is_space_def tab_def newline_def)
  then have h1: "map depth_entry [depth_line] = map Some [(''chr1:100'', ''35'')]"
    and h1': "map depth_entry [depth_line, depth_line]
       = map Some [(''chr1:100'', ''35''), (''chr1:100'', ''35'')]"
    by simp_all
  have h2: "fst ` set [(''chr1:100'', ''35'')] \<subseteq> dom variants_0"
    and h2': "fst ` set [(''chr1:100'', ''35''), (''chr1:100'', ''35'')] \<subseteq> dom variants_0"
    by (simp_all add: variants_0_def)
  have h3: "\<not> covered ''s1'' variants_0 ''chr1:100''"
    by (simp add: covered_def variants_0_def variant_0_def has_key_def)
  have h4: "distinct (map fst [(''chr1:100'', ''35'')])
      \<and> (\<forall>p \<in> fst ` set [(''chr1:100'', ''35'')]. \<not> covered ''s1'' variants_0 p)"
    using h3 by simp
  have h4': "\<not> (distinct (map fst [(''chr1:100'', ''35''), (''chr1:100'', ''35'')])
      \<and> (\<forall>p \<in> fst ` set [(''chr1:100'', ''35''), (''chr1:100'', ''35'')].
            \<not> covered ''s1'' variants_0 p))"
    by simp
  note stored = store_depth_once [where variants = variants_0 and spl = "''s1''"
      and lines = "[depth_line]" and entries = "[(''chr1:100'', ''35'')]",
      THEN conjunct2, THEN conjunct2, THEN conjunct2, THEN conjunct1]
  have v1: "store_depths ''s1'' variants_0 [depth_line] =
      Inr (with_depths ''s1'' [(''chr1:100'', ''35'')] variants_0)"
    using stored h1 h2 h4 by blast
  have v2: "map_option (\<lambda>v. variant_coverage v ''s1'')
      (with_depths ''s1'' [(''chr1:100'', ''35'')] variants_0 ''chr1:100'') = Some (Some ''35'')"
    by (simp add: with_depths_def variants_0_def)
  note abort = store_depth_once [where variants = variants_0 and spl = "''s1''"
      and lines = "[depth_line, depth_line]"
      and entries = "[(''chr1:100'', ''35''), (''chr1:100'', ''35'')]",
      THEN conjunct2, THEN conjunct2, THEN conjunct2, THEN conjunct2, THEN conjunct1]
  have "\<exists>p \<in> fst ` set [(''chr1:100'', ''35''), (''chr1:100'', ''35'')].
      store_depths ''s1'' variants_0 [depth_line, depth_line] =
        Inl (Exception (duplicate_depth_message p))"
    using abort h1' h2' h4' by blast
  then have v3: "store_depths ''s1'' variants_0 [depth_line, depth_line] =
      Inl (Exception (duplicate_depth_message ''chr1:100''))"
    by simp
  show ?thesis
    by (intro conjI) (rule h1 h2 h3 v1 v2 h1' v3)+
qed

end
